theory Spec2Isabelle
  imports Complex_Main "HOL-Library.Sublist"
begin

section \<open>The span consumer: \<^verbatim>\<open>sentry/spans/consumers/process/factory.py\<close>\<close>

subsection \<open>Values of the host language\<close>

text \<open>
  A payload is a byte string. The records decoded from it are Python values as a JSON
  decoder produces them: \<^verbatim>\<open>None\<close>, booleans, integers, floats, strings, lists and
  dictionaries with string keys. A float is a finite number, an infinity or NaN.
  A dictionary is an association list of its items (a Python dict holds each key once).
\<close>

type_synonym bytes = string

datatype pyfloat = Finite real | PosInf | NegInf | NaN

datatype pyval =
    PNone
  | PBool bool
  | PInt int
  | PFloat pyfloat
  | PStr string
  | PList "pyval list"
  | PDict "(string \<times> pyval) list"

datatype error =
    JSONDecodeError
  | AttributeError
  | KeyError string
  | AssertionError

text \<open>\<^verbatim>\<open>bool(x)\<close>: the truth value Python gives to a decoded value.\<close>

fun truthy :: "pyval \<Rightarrow> bool" where
  "truthy PNone = False"
| "truthy (PBool b) = b"
| "truthy (PInt i) = (i \<noteq> 0)"
| "truthy (PFloat f) = (f \<noteq> Finite 0)"
| "truthy (PStr s) = (s \<noteq> [])"
| "truthy (PList xs) = (xs \<noteq> [])"
| "truthy (PDict kvs) = (kvs \<noteq> [])"

text \<open>\<^verbatim>\<open>d.get(k)\<close>: the item under \<open>k\<close>, and \<^verbatim>\<open>None\<close> when there is none.\<close>

definition dict_get :: "(string \<times> pyval) list \<Rightarrow> string \<Rightarrow> pyval" where
  "dict_get d k = (case map_of d k of None \<Rightarrow> PNone | Some v \<Rightarrow> v)"

text \<open>\<^verbatim>\<open>d[k]\<close>: the item under \<open>k\<close>; a missing key raises \<^verbatim>\<open>KeyError\<close>.\<close>

definition dict_item :: "(string \<times> pyval) list \<Rightarrow> string \<Rightarrow> error + pyval" where
  "dict_item d k = (case map_of d k of None \<Rightarrow> Inl (KeyError k) | Some v \<Rightarrow> Inr v)"

subsection \<open>Messages of the stream\<close>

record partition =
  topic :: string
  index :: int

record kafka_payload =
  kp_key :: "bytes option"
  kp_value :: bytes
  kp_headers :: "(string \<times> bytes) list"

text \<open>
  A message as \<^verbatim>\<open>prepare_message\<close> receives it: the payload and the producer's
  timestamp, when there is one, as the float that \<^verbatim>\<open>datetime.timestamp()\<close> returns
  (POSIX seconds).
\<close>

record message =
  msg_timestamp :: "real option"
  msg_payload :: kafka_payload

text \<open>
  An element of a batch (\<^verbatim>\<open>values.payload\<close>): the pair that \<^verbatim>\<open>prepare_message\<close>
  made, and the committable offsets of the message, a mapping from partitions to offsets
  in its iteration order.
\<close>

record base_value =
  payload :: "int \<times> kafka_payload"
  committable :: "(partition \<times> int) list"

text \<open>The \<^verbatim>\<open>Span\<close> built for the buffer, with the fields the constructor call names.\<close>

record span =
  partition :: int
  trace_id :: pyval
  span_id :: pyval
  parent_span_id :: pyval
  project_id :: pyval
  span_payload :: bytes
  is_segment_span :: bool

subsection \<open>\<^verbatim>\<open>prepare_message\<close>\<close>

text \<open>\<^verbatim>\<open>int(x)\<close> of a float: truncation towards zero.\<close>

definition int_of_float :: "real \<Rightarrow> int" where
  "int_of_float x = (if 0 \<le> x then \<lfloor>x\<rfloor> else \<lceil>x\<rceil>)"

text \<open>
  \<open>time_time\<close> is the value \<^verbatim>\<open>time.time()\<close> returns when it is called. A
  \<^verbatim>\<open>datetime\<close> is always true in a condition, so the test is on presence.
\<close>

definition prepare_message :: "real \<Rightarrow> message \<Rightarrow> int \<times> kafka_payload" where
  "prepare_message time_time message =
     (int_of_float (case msg_timestamp message of Some t \<Rightarrow> t | None \<Rightarrow> time_time),
      msg_payload message)"

subsection \<open>\<^verbatim>\<open>create_with_partitions\<close>: the default shard\<close>

text \<open>\<^verbatim>\<open>next((p.index for p in partitions), 0)\<close>\<close>

definition first_partition_of :: "(partition \<times> int) list \<Rightarrow> int" where
  "first_partition_of partitions = (case partitions of [] \<Rightarrow> 0 | p # _ \<Rightarrow> index (fst p))"

subsection \<open>\<^verbatim>\<open>process_batch\<close>\<close>

text \<open>
  The decoder \<^verbatim>\<open>rapidjson.loads\<close> (\<open>None\<close> when it raises), the killswitch
  \<^verbatim>\<open>killswitch_matches_context("spans.drop-in-buffer", ...)\<close> on the four context values,
  and the buffer's \<^verbatim>\<open>process_spans\<close> are parameters.
\<close>

type_synonym loads_fn = "bytes \<Rightarrow> pyval option"
type_synonym killswitch_fn = "pyval \<Rightarrow> pyval \<Rightarrow> pyval \<Rightarrow> int \<Rightarrow> bool"

text \<open>Lines 129-130: the running minimum.\<close>

definition update_min :: "int option \<Rightarrow> int \<Rightarrow> int option" where
  "update_min min_timestamp timestamp =
     (case min_timestamp of
        None \<Rightarrow> Some timestamp
      | Some m \<Rightarrow> if timestamp < m then Some timestamp else Some m)"

text \<open>Lines 134-136: the shard of one message.\<close>

definition partition_id_of :: "int \<Rightarrow> base_value \<Rightarrow> int" where
  "partition_id_of first_partition v =
     (case committable v of
        [p] \<Rightarrow> index (fst p)
      | _ \<Rightarrow> first_partition)"

text \<open>
  Lines 149-157: the constructor call. Its arguments are evaluated in order, so the first
  missing key among \<^verbatim>\<open>trace_id\<close>, \<^verbatim>\<open>span_id\<close>, \<^verbatim>\<open>project_id\<close> is the one reported.
\<close>

definition make_span :: "int \<Rightarrow> (string \<times> pyval) list \<Rightarrow> bytes \<Rightarrow> error + span" where
  "make_span partition_id val raw =
     (case dict_item val ''trace_id'' of
        Inl e \<Rightarrow> Inl e
      | Inr tid \<Rightarrow>
     (case dict_item val ''span_id'' of
        Inl e \<Rightarrow> Inl e
      | Inr sid \<Rightarrow>
     (case dict_item val ''project_id'' of
        Inl e \<Rightarrow> Inl e
      | Inr pid \<Rightarrow>
          Inr \<lparr> partition = partition_id,
                trace_id = tid,
                span_id = sid,
                parent_span_id = dict_get val ''parent_span_id'',
                project_id = pid,
                span_payload = raw,
                is_segment_span =
                  (dict_get val ''parent_span_id'' = PNone \<or> truthy (dict_get val ''is_remote'')) \<rparr>)))"

text \<open>
  Lines 132-157, the body of the loop after the minimum: an error, \<open>None\<close> for
  \<^verbatim>\<open>continue\<close>, or the span to append. Only a dictionary has \<^verbatim>\<open>get\<close>; on any other
  decoded value the first \<^verbatim>\<open>val.get\<close> raises \<^verbatim>\<open>AttributeError\<close>.
\<close>

definition decode_value ::
  "loads_fn \<Rightarrow> killswitch_fn \<Rightarrow> int \<Rightarrow> base_value \<Rightarrow> error + span option" where
  "decode_value loads killswitch first_partition v =
     (case loads (kp_value (snd (payload v))) of
        None \<Rightarrow> Inl JSONDecodeError
      | Some val \<Rightarrow>
          let partition_id = partition_id_of first_partition v in
          (case val of
             PDict d \<Rightarrow>
               if killswitch (dict_get d ''organization_id'') (dict_get d ''project_id'')
                    (dict_get d ''trace_id'') partition_id
               then Inr None
               else (case make_span partition_id d (kp_value (snd (payload v))) of
                       Inl e \<Rightarrow> Inl e
                     | Inr s \<Rightarrow> Inr (Some s))
           | _ \<Rightarrow> Inl AttributeError))"

text \<open>Lines 127-158: the loop, with \<^verbatim>\<open>min_timestamp\<close> and \<^verbatim>\<open>spans\<close> as its state.\<close>

fun process_values ::
  "loads_fn \<Rightarrow> killswitch_fn \<Rightarrow> int \<Rightarrow> base_value list \<Rightarrow> int option \<Rightarrow> span list
     \<Rightarrow> error + (int option \<times> span list)" where
  "process_values loads killswitch first_partition [] min_timestamp spans =
     Inr (min_timestamp, spans)"
| "process_values loads killswitch first_partition (v # vs) min_timestamp spans =
     (let min_timestamp' = update_min min_timestamp (fst (payload v)) in
      case decode_value loads killswitch first_partition v of
        Inl e \<Rightarrow> Inl e
      | Inr None \<Rightarrow> process_values loads killswitch first_partition vs min_timestamp' spans
      | Inr (Some s) \<Rightarrow>
          process_values loads killswitch first_partition vs min_timestamp' (spans @ [s]))"

text \<open>
  The whole function: the result (an error raised, or the value returned) and the buffer
  afterwards. \<open>values\<close> is \<^verbatim>\<open>values.payload\<close>.
\<close>

definition process_batch ::
  "loads_fn \<Rightarrow> killswitch_fn \<Rightarrow> (span list \<Rightarrow> int \<Rightarrow> 'b \<Rightarrow> 'b) \<Rightarrow> 'b \<Rightarrow> int
     \<Rightarrow> base_value list \<Rightarrow> (error + int) \<times> 'b" where
  "process_batch loads killswitch process_spans buffer first_partition values =
     (case process_values loads killswitch first_partition values None [] of
        Inl e \<Rightarrow> (Inl e, buffer)
      | Inr (None, spans) \<Rightarrow> (Inl AssertionError, buffer)
      | Inr (Some min_timestamp, spans) \<Rightarrow>
          (Inr min_timestamp, process_spans spans min_timestamp buffer))"

subsection \<open>What a batch hands to the buffer\<close>

text \<open>The raw bytes and the timestamp of a batch element.\<close>

definition raw_bytes :: "base_value \<Rightarrow> bytes" where
  "raw_bytes v = kp_value (snd (payload v))"

definition timestamps :: "base_value list \<Rightarrow> int list" where
  "timestamps vs = map (\<lambda>v. fst (payload v)) vs"

text \<open>The span a message contributes, when it contributes one.\<close>

definition span_of :: "loads_fn \<Rightarrow> killswitch_fn \<Rightarrow> int \<Rightarrow> base_value \<Rightarrow> span option" where
  "span_of loads killswitch first_partition v =
     (case decode_value loads killswitch first_partition v of
        Inr (Some s) \<Rightarrow> Some s
      | _ \<Rightarrow> None)"

definition admitted_spans ::
  "loads_fn \<Rightarrow> killswitch_fn \<Rightarrow> int \<Rightarrow> base_value list \<Rightarrow> span list" where
  "admitted_spans loads killswitch first_partition vs =
     List.map_filter (span_of loads killswitch first_partition) vs"

text \<open>
  The admission predicate matches a message: its payload decodes to a dictionary and the
  killswitch holds of its organization, project, trace and shard.
\<close>

definition admission_matches ::
  "loads_fn \<Rightarrow> killswitch_fn \<Rightarrow> int \<Rightarrow> base_value \<Rightarrow> bool" where
  "admission_matches loads killswitch first_partition v =
     (case loads (raw_bytes v) of
        Some (PDict d) \<Rightarrow>
          killswitch (dict_get d ''organization_id'') (dict_get d ''project_id'')
            (dict_get d ''trace_id'') (partition_id_of first_partition v)
      | _ \<Rightarrow> False)"

text \<open>
  The specification's reading of a payload that fails to decode: the bytes do not parse,
  the parsed value is not a record, or one of the required keys is missing.
\<close>

definition missing_required_key :: "(string \<times> pyval) list \<Rightarrow> bool" where
  "missing_required_key d =
     (map_of d ''trace_id'' = None \<or> map_of d ''span_id'' = None
        \<or> map_of d ''project_id'' = None)"

definition spec_fails_to_decode :: "loads_fn \<Rightarrow> base_value \<Rightarrow> bool" where
  "spec_fails_to_decode loads v =
     (case loads (raw_bytes v) of
        None \<Rightarrow> True
      | Some (PDict d) \<Rightarrow> missing_required_key d
      | Some _ \<Rightarrow> True)"

text \<open>
  The specification's reading of shard resolution, for the whole batch at once: the
  partitions named by the committables of all its messages; when they are one partition,
  its index, and the default shard otherwise.
\<close>

definition spec_batch_shard :: "int \<Rightarrow> base_value list \<Rightarrow> int" where
  "spec_batch_shard first_partition vs =
     (case remdups (concat (map (\<lambda>v. map fst (committable v)) vs)) of
        [p] \<Rightarrow> index p
      | _ \<Rightarrow> first_partition)"

definition spans_all_on :: "int \<Rightarrow> span list \<Rightarrow> bool" where
  "spans_all_on shard spans = list_all (\<lambda>s. partition s = shard) spans"

subsection \<open>The buffer engine\<close>

text \<open>
  Modelled from the spec: the \<^verbatim>\<open>Segment\<close> of the Buffer Engine (section 3; the module
  \<^verbatim>\<open>sentry.spans.buffer\<close> is not among the sources): its spans in insertion order,
  the logical time of the last ingestion and of the first.
\<close>

record segment =
  seg_spans :: "span list"
  last_update :: int
  created_at :: int

text \<open>
  Modelled from the spec: the state of the Buffer Engine (section 4.4, absent from the
  sources): the live segments, one per shard and trace in the order they were opened, the
  tracked watermark of each shard, and the shards assigned to the engine.
\<close>

record buffer_engine =
  segments :: "((int \<times> pyval) \<times> segment) list"
  watermarks :: "int \<Rightarrow> int option"
  assigned_shards :: "int list"

text \<open>Modelled from the spec: the flush threshold, 120 seconds of logical time (section 3).\<close>

definition flush_threshold :: int where
  "flush_threshold = 120"

text \<open>Modelled from the spec: an engine that has ingested nothing yet (section 4.4).\<close>

definition empty_engine :: "int list \<Rightarrow> buffer_engine" where
  "empty_engine shards = \<lparr> segments = [], watermarks = (\<lambda>shard. None), assigned_shards = shards \<rparr>"

text \<open>
  Modelled from the spec: \<^verbatim>\<open>ingest\<close> on one span and an open segment (section 4.4):
  append the span if its \<^verbatim>\<open>span_id\<close> is not already present, and set
  \<^verbatim>\<open>last_update = max(last_update, now)\<close>.
\<close>

definition add_span :: "int \<Rightarrow> span \<Rightarrow> segment \<Rightarrow> segment" where
  "add_span now s g =
     g \<lparr> seg_spans := (if span_id s \<in> set (map span_id (seg_spans g)) then seg_spans g
                        else seg_spans g @ [s]),
         last_update := max (last_update g) now \<rparr>"

text \<open>
  Modelled from the spec: \<^verbatim>\<open>ingest\<close> on one span (section 4.4): create the segment for
  \<^verbatim>\<open>(shard, trace_id)\<close> if absent, else add the span to it.
\<close>

definition ingest_span ::
  "int \<Rightarrow> int \<Rightarrow> span \<Rightarrow> ((int \<times> pyval) \<times> segment) list \<Rightarrow> ((int \<times> pyval) \<times> segment) list" where
  "ingest_span shard now s segs =
     (case map_of segs (shard, trace_id s) of
        None \<Rightarrow>
          segs @ [((shard, trace_id s), \<lparr> seg_spans = [s], last_update = now, created_at = now \<rparr>)]
      | Some g \<Rightarrow>
          map (\<lambda>(k, g). if k = (shard, trace_id s) then (k, add_span now s g) else (k, g)) segs)"

text \<open>
  Modelled from the spec: \<^verbatim>\<open>ingest(shard, spans, now)\<close> (section 4.4, absent from the
  sources). It operates only within the assigned shards; the watermark of the shard is the
  maximum \<^verbatim>\<open>now\<close> seen across all \<^verbatim>\<open>ingest\<close> calls for that shard.
\<close>

definition ingest :: "buffer_engine \<Rightarrow> int \<Rightarrow> span list \<Rightarrow> int \<Rightarrow> buffer_engine" where
  "ingest b shard spans now =
     (if shard \<in> set (assigned_shards b)
      then b \<lparr> segments := fold (ingest_span shard now) spans (segments b),
               watermarks := (watermarks b)
                 (shard := Some (case watermarks b shard of None \<Rightarrow> now | Some w \<Rightarrow> max w now)) \<rparr>
      else b)"

text \<open>
  Modelled from the spec: the test of \<^verbatim>\<open>take_flushable\<close> on one live segment
  (section 4.4), against the tracked watermark \<open>w\<close> of the shard.
\<close>

definition is_flushable :: "int \<Rightarrow> int \<Rightarrow> (int \<times> pyval) \<times> segment \<Rightarrow> bool" where
  "is_flushable w shard e = (fst (fst e) = shard \<and> flush_threshold \<le> w - last_update (snd e))"

text \<open>
  Modelled from the spec: \<^verbatim>\<open>take_flushable(shard, watermark)\<close> (section 4.4, absent from
  the sources): the segments of the shard that are flushable against the tracked watermark,
  not the caller's, are removed from the live state and returned.
\<close>

definition take_flushable ::
  "buffer_engine \<Rightarrow> int \<Rightarrow> int \<Rightarrow> ((int \<times> pyval) \<times> segment) list \<times> buffer_engine" where
  "take_flushable b shard watermark =
     (if shard \<in> set (assigned_shards b)
      then (case watermarks b shard of
              None \<Rightarrow> ([], b)
            | Some w \<Rightarrow>
                (filter (is_flushable w shard) (segments b),
                 b \<lparr> segments := filter (\<lambda>e. \<not> is_flushable w shard e) (segments b) \<rparr>))
      else ([], b))"

text \<open>
  Modelled from the spec: the states of the engine, reached from an empty engine by
  \<^verbatim>\<open>ingest\<close> and \<^verbatim>\<open>take_flushable\<close>, the only operations on it (section 3, ownership).
\<close>

inductive reachable :: "buffer_engine \<Rightarrow> bool" where
  start: "reachable (empty_engine shards)"
| ingested: "reachable b \<Longrightarrow> reachable (ingest b shard spans now)"
| flushed: "reachable b \<Longrightarrow> reachable (snd (take_flushable b shard watermark))"

text \<open>
  What holds of every reachable engine: each live segment is on an assigned shard whose
  watermark is tracked.
\<close>

definition engine_inv :: "buffer_engine \<Rightarrow> bool" where
  "engine_inv b =
     (\<forall>e\<in>set (segments b). fst (fst e) \<in> set (assigned_shards b)
        \<and> watermarks b (fst (fst e)) \<noteq> None)"

subsection \<open>Example inputs\<close>

text \<open>
  A decoder given by a finite table, a buffer that logs its calls, two killswitches,
  batches, messages and an engine.
\<close>

definition loads_table :: "(bytes \<times> pyval) list \<Rightarrow> loads_fn" where
  "loads_table tbl raw = map_of tbl raw"

definition record_call :: "span list \<Rightarrow> int \<Rightarrow> (span list \<times> int) list \<Rightarrow> (span list \<times> int) list" where
  "record_call spans now calls = calls @ [(spans, now)]"

definition never_drop :: killswitch_fn where
  "never_drop org proj trace shard = False"

definition drop_project :: "int \<Rightarrow> killswitch_fn" where
  "drop_project p org proj trace shard = (proj = PInt p)"

definition mk_value :: "int \<Rightarrow> bytes \<Rightarrow> int list \<Rightarrow> base_value" where
  "mk_value ts raw parts =
     \<lparr> payload = (ts, \<lparr> kp_key = None, kp_value = raw, kp_headers = [] \<rparr>),
       committable = map (\<lambda>i. (\<lparr> topic = ''spans'', index = i \<rparr>, 1)) parts \<rparr>"

definition ex_table :: "(bytes \<times> pyval) list" where
  "ex_table =
     [(''root5'', PDict [(''organization_id'', PInt 1), (''project_id'', PInt 5),
                        (''trace_id'', PStr ''t1''), (''span_id'', PStr ''a'')]),
      (''child5'', PDict [(''organization_id'', PInt 1), (''project_id'', PInt 5),
                         (''trace_id'', PStr ''t1''), (''span_id'', PStr ''b''),
                         (''parent_span_id'', PStr ''a'')]),
      (''remote5'', PDict [(''organization_id'', PInt 1), (''project_id'', PInt 5),
                          (''trace_id'', PStr ''t1''), (''span_id'', PStr ''c''),
                          (''parent_span_id'', PStr ''z''), (''is_remote'', PBool True)]),
      (''child6'', PDict [(''organization_id'', PInt 1), (''project_id'', PInt 6),
                         (''trace_id'', PStr ''t1''), (''span_id'', PStr ''d''),
                         (''parent_span_id'', PStr ''a'')]),
      (''bare6'', PDict [(''project_id'', PInt 6)]),
      (''bare5'', PDict [(''project_id'', PInt 5)]),
      (''list'', PList [])]"

definition ex_batch_one_partition :: "base_value list" where
  "ex_batch_one_partition =
     [mk_value 30 ''root5'' [0], mk_value 10 ''child5'' [0], mk_value 20 ''remote5'' [0]]"

definition ex_batch_two_partitions :: "base_value list" where
  "ex_batch_two_partitions = [mk_value 10 ''root5'' [3], mk_value 20 ''child5'' [5]]"

definition ex_batch_mixed :: "base_value list" where
  "ex_batch_mixed =
     [mk_value 5 ''child6'' [0], mk_value 10 ''root5'' [0], mk_value 7 ''child5'' [0]]"

definition ex_batch_all_dropped :: "base_value list" where
  "ex_batch_all_dropped = [mk_value 8 ''child6'' [0], mk_value 4 ''bare6'' [0]]"

definition ex_batch_malformed :: "base_value list" where
  "ex_batch_malformed =
     [mk_value 10 ''root5'' [0], mk_value 11 ''bare5'' [0], mk_value 12 ''child5'' [0]]"

definition ex_partitions :: "(partition \<times> int) list" where
  "ex_partitions = [(\<lparr> topic = ''spans'', index = 7 \<rparr>, 0)]"

definition ex_batch_shards :: "base_value list" where
  "ex_batch_shards =
     [mk_value 10 ''root5'' [3], mk_value 20 ''child5'' [5], mk_value 30 ''remote5'' [3, 5],
      mk_value 40 ''root5'' []]"

definition ex_message_stamped :: message where
  "ex_message_stamped =
     \<lparr> msg_timestamp = Some (6800000003 / 4),
       msg_payload = \<lparr> kp_key = None, kp_value = ''root5'', kp_headers = [] \<rparr> \<rparr>"

definition ex_message_unstamped :: message where
  "ex_message_unstamped =
     \<lparr> msg_timestamp = None,
       msg_payload = \<lparr> kp_key = None, kp_value = ''root5'', kp_headers = [] \<rparr> \<rparr>"

definition ex_batch_bare_dropped :: "base_value list" where
  "ex_batch_bare_dropped = [mk_value 10 ''bare6'' [0]]"

definition ex_span :: "string \<Rightarrow> string \<Rightarrow> span" where
  "ex_span tid sid =
     \<lparr> partition = 0, trace_id = PStr tid, span_id = PStr sid, parent_span_id = PNone,
       project_id = PInt 5, span_payload = sid, is_segment_span = True \<rparr>"

definition ex_engine :: buffer_engine where
  "ex_engine =
     ingest (ingest (empty_engine [0]) 0 [ex_span ''t1'' ''a'', ex_span ''t1'' ''b''] 30)
       0 [ex_span ''t2'' ''c''] 150"

text \<open>The equations that evaluate the functions on the example inputs.\<close>

lemmas ex_defs = loads_table_def ex_table_def mk_value_def decode_value_def make_span_def dict_item_def dict_get_def partition_id_of_def never_drop_def drop_project_def raw_bytes_def timestamps_def

section \<open>Properties of the loop\<close>

lemma update_min_None: "update_min None t = Some t"
  by (simp add: update_min_def)

lemma update_min_Some: "update_min (Some m) t = Some (min m t)"
  by (simp add: update_min_def min_def)

lemma Min_insert_min:
  "finite S \<Longrightarrow> Min (insert (min a b) S) = Min (insert a (insert b S))"
  by (cases "S = {}") (simp_all add: min.assoc)

lemma fold_update_min:
  "fold (\<lambda>t m. update_min m t) ts (Some m) = Some (Min (insert m (set ts)))"
proof (induction ts arbitrary: m)
  case Nil
  show ?case by simp
next
  case (Cons t ts)
  have "Min (insert (min m t) (set ts)) = Min (insert m (insert t (set ts)))"
    by (rule Min_insert_min) simp
  then show ?case
    by (simp add: update_min_Some Cons.IH)
qed

lemma fold_update_min_None:
  "ts \<noteq> [] \<Longrightarrow> fold (\<lambda>t m. update_min m t) ts None = Some (Min (set ts))"
  by (cases ts) (simp_all add: update_min_None fold_update_min)

lemma admitted_spans_Nil: "admitted_spans loads ks fp [] = []"
  by (simp add: admitted_spans_def)

lemma admitted_spans_Cons:
  "admitted_spans loads ks fp (v # vs) =
     (case span_of loads ks fp v of None \<Rightarrow> [] | Some s \<Rightarrow> [s]) @ admitted_spans loads ks fp vs"
  by (simp add: admitted_spans_def split: option.splits)

lemma admitted_spans_append:
  "admitted_spans loads ks fp (xs @ ys) = admitted_spans loads ks fp xs @ admitted_spans loads ks fp ys"
  by (induction xs) (simp_all add: admitted_spans_Nil admitted_spans_Cons)

lemma process_values_ok:
  "\<forall>v\<in>set vs. \<not> isl (decode_value loads ks fp v) \<Longrightarrow>
   process_values loads ks fp vs mt spans =
     Inr (fold (\<lambda>t m. update_min m t) (timestamps vs) mt, spans @ admitted_spans loads ks fp vs)"
  by (induction vs arbitrary: mt spans)
     (auto simp: timestamps_def admitted_spans_Nil admitted_spans_Cons span_of_def Let_def
           split: sum.splits option.splits)

lemma process_values_error:
  "\<forall>u\<in>set pre. \<not> isl (decode_value loads ks fp u) \<Longrightarrow>
   decode_value loads ks fp v = Inl e \<Longrightarrow>
   process_values loads ks fp (pre @ v # post) mt spans = Inl e"
  by (induction pre arbitrary: mt spans)
     (auto simp: Let_def split: sum.splits option.splits)

lemma process_values_Inr_decodes:
  "process_values loads ks fp vs mt spans = Inr r \<Longrightarrow>
   \<forall>v\<in>set vs. \<not> isl (decode_value loads ks fp v)"
  by (induction vs arbitrary: mt spans)
     (auto simp: Let_def split: sum.splits option.splits)

lemma process_batch_ok:
  assumes "vs \<noteq> []" and "\<forall>v\<in>set vs. \<not> isl (decode_value loads ks fp v)"
  shows "process_batch loads ks ps buffer fp vs =
           (Inr (Min (set (timestamps vs))),
            ps (admitted_spans loads ks fp vs) (Min (set (timestamps vs))) buffer)"
proof -
  from assms(1) have "timestamps vs \<noteq> []" by (simp add: timestamps_def)
  then show ?thesis
    by (simp add: process_batch_def process_values_ok [OF assms(2)] fold_update_min_None)
qed

lemma process_batch_Inr:
  assumes "fst (process_batch loads ks ps buffer fp vs) = Inr ts"
  shows "vs \<noteq> [] \<and> (\<forall>v\<in>set vs. \<not> isl (decode_value loads ks fp v))"
proof -
  from assms obtain r where r: "process_values loads ks fp vs None [] = Inr r"
    by (auto simp: process_batch_def split: sum.splits)
  have "vs \<noteq> []"
    using assms by (auto simp: process_batch_def)
  with process_values_Inr_decodes [OF r] show ?thesis by simp
qed

lemma make_span_not_assertion: "make_span pid d raw \<noteq> Inl AssertionError"
  by (auto simp: make_span_def dict_item_def split: option.splits sum.splits)

lemma decode_value_not_assertion: "decode_value loads ks fp v \<noteq> Inl AssertionError"
  using make_span_not_assertion
  by (auto simp: decode_value_def Let_def split: option.splits pyval.splits sum.splits)

lemma process_batch_first_error:
  assumes "\<forall>u\<in>set pre. \<not> isl (decode_value loads ks fp u)"
    and "decode_value loads ks fp v = Inl e"
  shows "process_batch loads ks ps buffer fp (pre @ v # post) = (Inl e, buffer)"
  by (simp add: process_batch_def process_values_error [OF assms])

lemma process_batch_error:
  assumes "v \<in> set vs" and "isl (decode_value loads ks fp v)"
  shows "\<exists>e. process_batch loads ks ps buffer fp vs = (Inl e, buffer) \<and> e \<noteq> AssertionError"
proof -
  from assms have "\<exists>x\<in>set vs. isl (decode_value loads ks fp x)" by blast
  from split_list_first_prop [OF this]
  obtain pre x post where vs: "vs = pre @ x # post"
    and x: "isl (decode_value loads ks fp x)"
    and pre: "\<forall>u\<in>set pre. \<not> isl (decode_value loads ks fp u)"
    by blast
  from x obtain e where e: "decode_value loads ks fp x = Inl e"
    by (cases "decode_value loads ks fp x") simp_all
  have "e \<noteq> AssertionError"
    using decode_value_not_assertion [of loads ks fp x] e by auto
  with process_batch_first_error [OF pre e, of ps buffer post] vs show ?thesis by simp
qed

lemma decode_value_matches:
  "admission_matches loads ks fp v \<Longrightarrow> decode_value loads ks fp v = Inr None"
  by (auto simp: admission_matches_def decode_value_def raw_bytes_def
           split: option.splits pyval.splits)


section \<open>The claims about \<^verbatim>\<open>process_batch\<close>\<close>

text \<open>
  C3. For a non-empty batch, the value returned and the \<^verbatim>\<open>now\<close> handed to
  \<^verbatim>\<open>process_spans\<close> are the minimum of the timestamps of all messages of the batch:
  whenever the function returns, it returns that minimum and has called
  \<^verbatim>\<open>process_spans\<close> with it, and it does return when every message decodes.
\<close>

theorem now_is_batch_minimum:
  assumes "values \<noteq> []"
  shows "(\<forall>ts. fst (process_batch loads ks ps buffer fp values) = Inr ts \<longrightarrow>
            ts = Min (set (timestamps values)) \<and>
            snd (process_batch loads ks ps buffer fp values) =
              ps (admitted_spans loads ks fp values) (Min (set (timestamps values))) buffer)
       \<and> ((\<forall>v\<in>set values. \<not> isl (decode_value loads ks fp v)) \<longrightarrow>
            fst (process_batch loads ks ps buffer fp values) = Inr (Min (set (timestamps values))))"
proof (intro conjI allI impI)
  fix ts
  assume r: "fst (process_batch loads ks ps buffer fp values) = Inr ts"
  from process_batch_Inr [OF r]
  have ok: "\<forall>v\<in>set values. \<not> isl (decode_value loads ks fp v)" by simp
  from process_batch_ok [OF assms ok, of ps buffer] r
  show "ts = Min (set (timestamps values))" by simp
  from process_batch_ok [OF assms ok, of ps buffer]
  show "snd (process_batch loads ks ps buffer fp values) =
          ps (admitted_spans loads ks fp values) (Min (set (timestamps values))) buffer"
    by simp
next
  assume ok: "\<forall>v\<in>set values. \<not> isl (decode_value loads ks fp v)"
  from process_batch_ok [OF assms ok, of ps buffer]
  show "fst (process_batch loads ks ps buffer fp values) = Inr (Min (set (timestamps values)))"
    by simp
qed

theorem now_is_batch_minimum_witness:
  "ex_batch_one_partition \<noteq> []
   \<and> timestamps ex_batch_one_partition = [30, 10, 20]
   \<and> fst (process_batch (loads_table ex_table) never_drop record_call [] 0
            ex_batch_one_partition) = Inr 10"
proof -
  have ne: "ex_batch_one_partition \<noteq> []"
    by (simp add: ex_batch_one_partition_def)
  have ts: "timestamps ex_batch_one_partition = [30, 10, 20]"
    by (simp add: ex_batch_one_partition_def timestamps_def mk_value_def)
  have ok: "\<forall>v\<in>set ex_batch_one_partition.
              \<not> isl (decode_value (loads_table ex_table) never_drop 0 v)"
    by (simp add: ex_batch_one_partition_def ex_defs)
  from now_is_batch_minimum [OF ne, of "loads_table ex_table" never_drop record_call "[]" 0] ok
  have "fst (process_batch (loads_table ex_table) never_drop record_call [] 0
               ex_batch_one_partition) = Inr (Min (set (timestamps ex_batch_one_partition)))"
    by blast
  with ne ts show ?thesis by simp
qed

subsection \<open>The span of a message\<close>

lemma span_of_Some_iff:
  "span_of loads ks fp v = Some s \<longleftrightarrow> decode_value loads ks fp v = Inr (Some s)"
  by (auto simp: span_of_def split: sum.splits option.splits)

lemma span_of_None_iff:
  "\<not> isl (decode_value loads ks fp v) \<Longrightarrow>
   span_of loads ks fp v = None \<longleftrightarrow> admission_matches loads ks fp v"
  by (auto simp: span_of_def decode_value_def admission_matches_def raw_bytes_def Let_def
           split: sum.splits option.splits pyval.splits)

lemma set_admitted_spans:
  "set (admitted_spans loads ks fp vs) = {s. \<exists>v\<in>set vs. span_of loads ks fp v = Some s}"
  by (induction vs) (auto simp: admitted_spans_Cons admitted_spans_Nil split: option.splits)

lemma make_span_fields:
  "make_span pid d raw = Inr s \<Longrightarrow>
   partition s = pid \<and> span_payload s = raw
   \<and> parent_span_id s = dict_get d ''parent_span_id''
   \<and> is_segment_span s = (dict_get d ''parent_span_id'' = PNone \<or> truthy (dict_get d ''is_remote''))
   \<and> map_of d ''trace_id'' = Some (trace_id s)
   \<and> map_of d ''span_id'' = Some (span_id s)
   \<and> map_of d ''project_id'' = Some (project_id s)"
  by (auto simp: make_span_def dict_item_def split: sum.splits option.splits)

lemma span_of_SomeD:
  assumes "span_of loads ks fp v = Some s"
  shows "\<exists>d. loads (raw_bytes v) = Some (PDict d)
           \<and> make_span (partition_id_of fp v) d (raw_bytes v) = Inr s
           \<and> \<not> admission_matches loads ks fp v"
  using assms
  by (auto simp: span_of_def decode_value_def admission_matches_def raw_bytes_def Let_def
           split: sum.splits option.splits pyval.splits if_splits)

lemma partition_id_of_single:
  "committable v = [(p, off)] \<Longrightarrow> partition_id_of fp v = index p"
  by (simp add: partition_id_of_def)

lemma partition_id_of_default:
  "length (committable v) \<noteq> 1 \<Longrightarrow> partition_id_of fp v = fp"
  by (auto simp: partition_id_of_def split: list.splits)

text \<open>
  C2, as the specification states it, fails: the shard is resolved for each message from
  that message's own committable offsets, not once for the batch. A batch with one message
  from partition 3 and one from partition 5 yields spans on shards 3 and 5, none on the
  default shard 0.
\<close>

theorem batch_shard_counterexample:
  "\<not> spans_all_on (spec_batch_shard 0 ex_batch_two_partitions)
       (concat (map fst (snd (process_batch (loads_table ex_table) never_drop record_call [] 0
          ex_batch_two_partitions))))"
  by (simp add: spans_all_on_def spec_batch_shard_def ex_batch_two_partitions_def
        process_batch_def record_call_def update_min_def ex_defs)

text \<open>
  C2, amended. For every message of a batch that \<^verbatim>\<open>process_batch\<close> processes: when the
  message's own committable offsets name exactly one partition, its span is assigned that
  partition's index; otherwise its span is assigned the default shard, the index of the
  first assigned partition (0 when none is assigned). In particular, when every message
  of the batch comes from the same single partition, every span is on that partition.
\<close>

theorem shard_resolved_per_message:
  assumes "fst (process_batch loads ks ps buffer (first_partition_of partitions) values) = Inr ts"
  shows "snd (process_batch loads ks ps buffer (first_partition_of partitions) values) =
           ps (admitted_spans loads ks (first_partition_of partitions) values) ts buffer
       \<and> (\<forall>v\<in>set values. \<forall>s. span_of loads ks (first_partition_of partitions) v = Some s \<longrightarrow>
            (\<forall>p off. committable v = [(p, off)] \<longrightarrow> partition s = index p)
          \<and> (length (committable v) \<noteq> 1 \<longrightarrow> partition s = first_partition_of partitions))
       \<and> (\<forall>p. (\<forall>v\<in>set values. \<exists>off. committable v = [(p, off)]) \<longrightarrow>
            spans_all_on (index p) (admitted_spans loads ks (first_partition_of partitions) values))"
proof -
  let ?fp = "first_partition_of partitions"
  from process_batch_Inr [OF assms]
  have ne: "values \<noteq> []" and ok: "\<forall>v\<in>set values. \<not> isl (decode_value loads ks ?fp v)"
    by simp_all
  from process_batch_ok [OF ne ok, of ps buffer] assms
  have 1: "snd (process_batch loads ks ps buffer ?fp values) =
             ps (admitted_spans loads ks ?fp values) ts buffer"
    by simp
  have part: "partition s = partition_id_of ?fp v" if "span_of loads ks ?fp v = Some s" for v s
    using span_of_SomeD [OF that] make_span_fields by blast
  have 2: "\<forall>v\<in>set values. \<forall>s. span_of loads ks ?fp v = Some s \<longrightarrow>
            (\<forall>p off. committable v = [(p, off)] \<longrightarrow> partition s = index p)
          \<and> (length (committable v) \<noteq> 1 \<longrightarrow> partition s = ?fp)"
    using part by (auto simp: partition_id_of_single partition_id_of_default)
  have 3: "\<forall>p. (\<forall>v\<in>set values. \<exists>off. committable v = [(p, off)]) \<longrightarrow>
            spans_all_on (index p) (admitted_spans loads ks ?fp values)"
    using part
    by (fastforce simp: spans_all_on_def list_all_iff set_admitted_spans partition_id_of_single)
  from 1 2 3 show ?thesis by blast
qed


theorem shard_resolved_per_message_witness:
  "fst (process_batch (loads_table ex_table) never_drop record_call []
          (first_partition_of ex_partitions) ex_batch_shards) = Inr 10
   \<and> snd (process_batch (loads_table ex_table) never_drop record_call []
          (first_partition_of ex_partitions) ex_batch_shards) =
       [(admitted_spans (loads_table ex_table) never_drop (first_partition_of ex_partitions)
           ex_batch_shards, 10)]
   \<and> map partition (admitted_spans (loads_table ex_table) never_drop
          (first_partition_of ex_partitions) ex_batch_shards) = [3, 5, 7, 7]"
proof -
  have h: "fst (process_batch (loads_table ex_table) never_drop record_call []
                  (first_partition_of ex_partitions) ex_batch_shards) = Inr 10"
    by (simp add: ex_batch_shards_def ex_partitions_def first_partition_of_def
          process_batch_def record_call_def update_min_def ex_defs)
  have p: "map partition (admitted_spans (loads_table ex_table) never_drop
             (first_partition_of ex_partitions) ex_batch_shards) = [3, 5, 7, 7]"
    by (simp add: ex_batch_shards_def ex_partitions_def first_partition_of_def
          admitted_spans_def span_of_def ex_defs)
  from shard_resolved_per_message [OF h] h p show ?thesis
    by (simp add: record_call_def)
qed

lemma admitted_spans_filter:
  assumes "\<forall>v\<in>set vs. \<not> isl (decode_value loads ks fp v)"
  shows "admitted_spans loads ks fp vs =
           map (the \<circ> span_of loads ks fp) (filter (\<lambda>v. \<not> admission_matches loads ks fp v) vs)"
proof -
  have "filter (\<lambda>v. span_of loads ks fp v \<noteq> None) vs =
          filter (\<lambda>v. \<not> admission_matches loads ks fp v) vs"
    using assms by (intro filter_cong) (simp_all add: span_of_None_iff)
  then show ?thesis
    by (simp add: admitted_spans_def List.map_filter_def)
qed

lemma admitted_payloads:
  "map span_payload (admitted_spans loads ks fp vs) =
     map raw_bytes (filter (\<lambda>v. span_of loads ks fp v \<noteq> None) vs)"
proof (induction vs)
  case Nil
  show ?case by (simp add: admitted_spans_Nil)
next
  case (Cons v vs)
  show ?case
  proof (cases "span_of loads ks fp v")
    case None
    with Cons show ?thesis by (simp add: admitted_spans_Cons)
  next
    case (Some s)
    from span_of_SomeD [OF Some] make_span_fields have "span_payload s = raw_bytes v"
      by blast
    with Some Cons show ?thesis by (simp add: admitted_spans_Cons)
  qed
qed

text \<open>
  C7. No reordering within a batch: the list handed to \<^verbatim>\<open>process_spans\<close> is the list of
  the spans of the messages that the admission predicate does not match, in the order of
  the batch; the payloads of these spans are a subsequence of the payloads of the batch.
\<close>

theorem batch_order_preserved:
  assumes "fst (process_batch loads ks ps buffer fp values) = Inr ts"
  shows "snd (process_batch loads ks ps buffer fp values) =
           ps (map (the \<circ> span_of loads ks fp)
                 (filter (\<lambda>v. \<not> admission_matches loads ks fp v) values)) ts buffer
       \<and> subseq (map span_payload (admitted_spans loads ks fp values)) (map raw_bytes values)"
proof -
  from process_batch_Inr [OF assms]
  have ne: "values \<noteq> []" and ok: "\<forall>v\<in>set values. \<not> isl (decode_value loads ks fp v)"
    by simp_all
  from process_batch_ok [OF ne ok, of ps buffer] assms
  have "snd (process_batch loads ks ps buffer fp values) =
          ps (admitted_spans loads ks fp values) ts buffer"
    by simp
  then have 1: "snd (process_batch loads ks ps buffer fp values) =
           ps (map (the \<circ> span_of loads ks fp)
                 (filter (\<lambda>v. \<not> admission_matches loads ks fp v) values)) ts buffer"
    by (simp add: admitted_spans_filter [OF ok])
  have 2: "subseq (map span_payload (admitted_spans loads ks fp values)) (map raw_bytes values)"
    by (simp add: admitted_payloads subseq_map)
  from 1 2 show ?thesis by simp
qed

theorem batch_order_preserved_witness:
  "fst (process_batch (loads_table ex_table) (drop_project 6) record_call [] 0 ex_batch_mixed)
     = Inr 5
   \<and> map span_payload (concat (map fst
        (snd (process_batch (loads_table ex_table) (drop_project 6) record_call [] 0
           ex_batch_mixed)))) = [''root5'', ''child5'']
   \<and> map raw_bytes ex_batch_mixed = [''child6'', ''root5'', ''child5'']"
proof -
  have h: "fst (process_batch (loads_table ex_table) (drop_project 6) record_call [] 0
                  ex_batch_mixed) = Inr 5"
    by (simp add: ex_batch_mixed_def process_batch_def record_call_def update_min_def ex_defs)
  have f: "filter (\<lambda>v. \<not> admission_matches (loads_table ex_table) (drop_project 6) 0 v)
             ex_batch_mixed = [mk_value 10 ''root5'' [0], mk_value 7 ''child5'' [0]]"
    by (simp add: ex_batch_mixed_def admission_matches_def ex_defs)
  have r: "map raw_bytes ex_batch_mixed = [''child6'', ''root5'', ''child5'']"
    by (simp add: ex_batch_mixed_def ex_defs)
  from batch_order_preserved [OF h] f
  have "snd (process_batch (loads_table ex_table) (drop_project 6) record_call [] 0
          ex_batch_mixed) =
        [(map (the \<circ> span_of (loads_table ex_table) (drop_project 6) 0)
            [mk_value 10 ''root5'' [0], mk_value 7 ''child5'' [0]], 5)]"
    by (simp add: record_call_def)
  then have "map span_payload (concat (map fst
        (snd (process_batch (loads_table ex_table) (drop_project 6) record_call [] 0
           ex_batch_mixed)))) = [''root5'', ''child5'']"
    by (simp add: span_of_def ex_defs)
  with h r show ?thesis by simp
qed


text \<open>
  C8. Every span handed to \<^verbatim>\<open>process_spans\<close> comes from a message of the batch whose
  payload decodes to a record; its segment flag is true exactly when the record has no
  parent span (the key is missing or holds \<^verbatim>\<open>None\<close>) or its \<^verbatim>\<open>is_remote\<close> entry is true
  in the host language's sense; and its payload is the message's bytes unchanged.
\<close>

theorem segment_root_flag_and_payload:
  assumes "fst (process_batch loads ks ps buffer fp values) = Inr ts"
  shows "snd (process_batch loads ks ps buffer fp values) =
           ps (admitted_spans loads ks fp values) ts buffer
       \<and> (\<forall>s\<in>set (admitted_spans loads ks fp values).
            \<exists>v\<in>set values. \<exists>d. span_of loads ks fp v = Some s
              \<and> loads (raw_bytes v) = Some (PDict d)
              \<and> is_segment_span s =
                  (map_of d ''parent_span_id'' = None \<or> map_of d ''parent_span_id'' = Some PNone
                     \<or> truthy (dict_get d ''is_remote''))
              \<and> span_payload s = raw_bytes v)"
proof -
  from process_batch_Inr [OF assms]
  have ne: "values \<noteq> []" and ok: "\<forall>v\<in>set values. \<not> isl (decode_value loads ks fp v)"
    by simp_all
  from process_batch_ok [OF ne ok, of ps buffer] assms
  have 1: "snd (process_batch loads ks ps buffer fp values) =
          ps (admitted_spans loads ks fp values) ts buffer"
    by simp
  have absent: "(dict_get d ''parent_span_id'' = PNone) =
          (map_of d ''parent_span_id'' = None \<or> map_of d ''parent_span_id'' = Some PNone)" for d
    by (simp add: dict_get_def split: option.splits)
  have 2: "\<exists>v\<in>set values. \<exists>d. span_of loads ks fp v = Some s
              \<and> loads (raw_bytes v) = Some (PDict d)
              \<and> is_segment_span s =
                  (map_of d ''parent_span_id'' = None \<or> map_of d ''parent_span_id'' = Some PNone
                     \<or> truthy (dict_get d ''is_remote''))
              \<and> span_payload s = raw_bytes v"
    if "s \<in> set (admitted_spans loads ks fp values)" for s
  proof -
    from that obtain v where v: "v \<in> set values" and sv: "span_of loads ks fp v = Some s"
      by (auto simp: set_admitted_spans)
    from span_of_SomeD [OF sv] obtain d where d: "loads (raw_bytes v) = Some (PDict d)"
      and m: "make_span (partition_id_of fp v) d (raw_bytes v) = Inr s"
      by blast
    from make_span_fields [OF m] absent [of d]
    have "is_segment_span s =
            (map_of d ''parent_span_id'' = None \<or> map_of d ''parent_span_id'' = Some PNone
               \<or> truthy (dict_get d ''is_remote''))"
      and "span_payload s = raw_bytes v"
      by simp_all
    with v sv d show ?thesis by blast
  qed
  from 1 2 show ?thesis by blast
qed

theorem segment_root_flag_and_payload_witness:
  "fst (process_batch (loads_table ex_table) never_drop record_call [] 0
          ex_batch_one_partition) = Inr 10
   \<and> map is_segment_span (admitted_spans (loads_table ex_table) never_drop 0
          ex_batch_one_partition) = [True, False, True]
   \<and> map span_payload (admitted_spans (loads_table ex_table) never_drop 0
          ex_batch_one_partition) = [''root5'', ''child5'', ''remote5'']
   \<and> snd (process_batch (loads_table ex_table) never_drop record_call [] 0
          ex_batch_one_partition) =
       [(admitted_spans (loads_table ex_table) never_drop 0 ex_batch_one_partition, 10)]"
proof -
  have h: "fst (process_batch (loads_table ex_table) never_drop record_call [] 0
                  ex_batch_one_partition) = Inr 10"
    by (simp add: ex_batch_one_partition_def process_batch_def record_call_def update_min_def
          ex_defs)
  have a: "map is_segment_span (admitted_spans (loads_table ex_table) never_drop 0
             ex_batch_one_partition) = [True, False, True]"
    by (simp add: ex_batch_one_partition_def admitted_spans_def span_of_def ex_defs)
  have b: "map span_payload (admitted_spans (loads_table ex_table) never_drop 0
             ex_batch_one_partition) = [''root5'', ''child5'', ''remote5'']"
    by (simp add: ex_batch_one_partition_def admitted_spans_def span_of_def ex_defs)
  from segment_root_flag_and_payload [OF h] h a b show ?thesis
    by (simp add: record_call_def)
qed

text \<open>
  C9. On the empty batch the assertion fails. On a batch with at least one message it
  never fails, whatever else happens, and when every message of such a batch is dropped
  by the admission predicate the function returns a value.
\<close>

theorem assertion_fails_only_on_empty_batch:
  "process_batch loads ks ps buffer fp [] = (Inl AssertionError, buffer)
   \<and> (values \<noteq> [] \<longrightarrow> fst (process_batch loads ks ps buffer fp values) \<noteq> Inl AssertionError)
   \<and> (values \<noteq> [] \<and> (\<forall>v\<in>set values. admission_matches loads ks fp v) \<longrightarrow>
        (\<exists>ts. fst (process_batch loads ks ps buffer fp values) = Inr ts))"
proof (intro conjI impI)
  show "process_batch loads ks ps buffer fp [] = (Inl AssertionError, buffer)"
    by (simp add: process_batch_def)
next
  assume ne: "values \<noteq> []"
  show "fst (process_batch loads ks ps buffer fp values) \<noteq> Inl AssertionError"
  proof (cases "\<exists>v\<in>set values. isl (decode_value loads ks fp v)")
    case True
    then obtain v where "v \<in> set values" and "isl (decode_value loads ks fp v)" by blast
    from process_batch_error [OF this, of ps buffer] show ?thesis by auto
  next
    case False
    then have "\<forall>v\<in>set values. \<not> isl (decode_value loads ks fp v)" by blast
    from process_batch_ok [OF ne this, of ps buffer] show ?thesis by simp
  qed
next
  assume a: "values \<noteq> [] \<and> (\<forall>v\<in>set values. admission_matches loads ks fp v)"
  then have "\<forall>v\<in>set values. \<not> isl (decode_value loads ks fp v)"
    by (simp add: decode_value_matches)
  from process_batch_ok [OF _ this, of ps buffer] a
  show "\<exists>ts. fst (process_batch loads ks ps buffer fp values) = Inr ts" by simp
qed

theorem assertion_fails_only_on_empty_batch_witness:
  "ex_batch_all_dropped \<noteq> []
   \<and> list_all (admission_matches (loads_table ex_table) (drop_project 6) 0) ex_batch_all_dropped
   \<and> process_batch (loads_table ex_table) (drop_project 6) record_call [] 0 [] =
       (Inl AssertionError, [])
   \<and> fst (process_batch (loads_table ex_table) (drop_project 6) record_call [] 0
            ex_batch_all_dropped) \<noteq> Inl AssertionError
   \<and> (\<exists>ts. fst (process_batch (loads_table ex_table) (drop_project 6) record_call [] 0
            ex_batch_all_dropped) = Inr ts)"
proof -
  have ne: "ex_batch_all_dropped \<noteq> []"
    by (simp add: ex_batch_all_dropped_def)
  have m: "\<forall>v\<in>set ex_batch_all_dropped.
             admission_matches (loads_table ex_table) (drop_project 6) 0 v"
    by (simp add: ex_batch_all_dropped_def admission_matches_def ex_defs)
  from assertion_fails_only_on_empty_batch
         [of "loads_table ex_table" "drop_project 6" record_call "[]" 0 ex_batch_all_dropped]
       ne m
  show ?thesis by (simp add: list_all_iff)
qed

text \<open>
  C10. A message dropped by the admission predicate still counts for the minimum: the
  value returned is at most the timestamp of every dropped message, and when every
  message of a non-empty batch is dropped, \<^verbatim>\<open>process_spans\<close> is still called, with no
  spans and the minimum of all the timestamps.
\<close>

theorem dropped_messages_count_for_now:
  "(fst (process_batch loads ks ps buffer fp values) = Inr ts \<and> v \<in> set values
      \<and> admission_matches loads ks fp v \<longrightarrow> ts \<le> fst (payload v))
   \<and> (values \<noteq> [] \<and> (\<forall>u\<in>set values. admission_matches loads ks fp u) \<longrightarrow>
        process_batch loads ks ps buffer fp values =
          (Inr (Min (set (timestamps values))), ps [] (Min (set (timestamps values))) buffer))"
proof (intro conjI impI)
  assume a: "fst (process_batch loads ks ps buffer fp values) = Inr ts \<and> v \<in> set values
      \<and> admission_matches loads ks fp v"
  from process_batch_Inr [of loads ks ps buffer fp "values" ts] a
  have ne: "values \<noteq> []" and ok: "\<forall>v\<in>set values. \<not> isl (decode_value loads ks fp v)"
    by simp_all
  from process_batch_ok [OF ne ok, of ps buffer] a
  have "ts = Min (set (timestamps values))" by simp
  moreover from a have "fst (payload v) \<in> set (timestamps values)"
    by (simp add: timestamps_def)
  ultimately show "ts \<le> fst (payload v)" by simp
next
  assume a: "values \<noteq> [] \<and> (\<forall>u\<in>set values. admission_matches loads ks fp u)"
  then have ok: "\<forall>v\<in>set values. \<not> isl (decode_value loads ks fp v)"
    by (simp add: decode_value_matches)
  from a have "\<forall>u\<in>set values. span_of loads ks fp u = None"
    by (simp add: span_of_def decode_value_matches)
  then have "admitted_spans loads ks fp values = []"
    by (simp add: admitted_spans_def List.map_filter_def filter_empty_conv)
  with process_batch_ok [OF _ ok, of ps buffer] a
  show "process_batch loads ks ps buffer fp values =
          (Inr (Min (set (timestamps values))), ps [] (Min (set (timestamps values))) buffer)"
    by simp
qed

theorem dropped_messages_count_for_now_witness:
  "process_batch (loads_table ex_table) (drop_project 6) record_call [] 0 ex_batch_all_dropped
     = (Inr 4, [([], 4)])
   \<and> timestamps ex_batch_all_dropped = [8, 4]
   \<and> list_all (admission_matches (loads_table ex_table) (drop_project 6) 0) ex_batch_all_dropped
   \<and> fst (process_batch (loads_table ex_table) (drop_project 6) record_call [] 0 ex_batch_mixed)
       = Inr 5
   \<and> admission_matches (loads_table ex_table) (drop_project 6) 0 (mk_value 5 ''child6'' [0])
   \<and> timestamps ex_batch_mixed = [5, 10, 7]"
proof -
  have ne: "ex_batch_all_dropped \<noteq> []"
    by (simp add: ex_batch_all_dropped_def)
  have m: "\<forall>v\<in>set ex_batch_all_dropped.
             admission_matches (loads_table ex_table) (drop_project 6) 0 v"
    by (simp add: ex_batch_all_dropped_def admission_matches_def ex_defs)
  have t: "timestamps ex_batch_all_dropped = [8, 4]"
    by (simp add: ex_batch_all_dropped_def ex_defs)
  have h: "fst (process_batch (loads_table ex_table) (drop_project 6) record_call [] 0
                  ex_batch_mixed) = Inr 5"
    by (simp add: ex_batch_mixed_def process_batch_def record_call_def update_min_def ex_defs)
  have d: "admission_matches (loads_table ex_table) (drop_project 6) 0 (mk_value 5 ''child6'' [0])"
    by (simp add: admission_matches_def ex_defs)
  have t': "timestamps ex_batch_mixed = [5, 10, 7]"
    by (simp add: ex_batch_mixed_def ex_defs)
  from dropped_messages_count_for_now
         [of "loads_table ex_table" "drop_project 6" record_call "[]" 0 ex_batch_all_dropped]
       ne m t
  have "process_batch (loads_table ex_table) (drop_project 6) record_call [] 0
          ex_batch_all_dropped = (Inr 4, [([], 4)])"
    by (simp add: record_call_def)
  with t m h d t' show ?thesis by (simp add: list_all_iff)
qed

subsection \<open>Skipping a dropped message\<close>

lemma process_values_min_irrelevant:
  "map_sum (\<lambda>e. e) snd (process_values loads ks fp vs mt spans) =
   map_sum (\<lambda>e. e) snd (process_values loads ks fp vs mt' spans)"
  by (induction vs arbitrary: mt mt' spans)
     (auto simp: Let_def split: sum.splits option.splits)

lemma process_values_skip:
  assumes "decode_value loads ks fp v = Inr None"
  shows "map_sum (\<lambda>e. e) snd (process_values loads ks fp (pre @ v # post) mt spans) =
         map_sum (\<lambda>e. e) snd (process_values loads ks fp (pre @ post) mt spans)"
proof (induction pre arbitrary: mt spans)
  case Nil
  from assms
  have "process_values loads ks fp (v # post) mt spans =
          process_values loads ks fp post (update_min mt (fst (payload v))) spans"
    by (simp add: Let_def)
  then have "map_sum (\<lambda>e. e) snd (process_values loads ks fp (v # post) mt spans) =
          map_sum (\<lambda>e. e) snd (process_values loads ks fp post (update_min mt (fst (payload v))) spans)"
    by (rule arg_cong)
  also have "\<dots> = map_sum (\<lambda>e. e) snd (process_values loads ks fp post mt spans)"
    by (rule process_values_min_irrelevant)
  finally show ?case by (simp only: append_Nil)
next
  case (Cons u pre)
  show ?case
    by (simp add: Let_def Cons.IH split: sum.splits option.splits)
qed

text \<open>
  C4. A message that the admission predicate matches is dropped silently: the loop ends
  in the same error, or with the same list of spans, as on the batch without that message,
  so the message adds neither a span nor an error, and the other messages are processed
  as before. When the other messages all decode, the function returns and hands
  \<^verbatim>\<open>process_spans\<close> exactly their spans.
\<close>

theorem admission_match_drops_silently:
  assumes "admission_matches loads ks fp v"
  shows "map_sum (\<lambda>e. e) snd (process_values loads ks fp (pre @ v # post) None []) =
         map_sum (\<lambda>e. e) snd (process_values loads ks fp (pre @ post) None [])
       \<and> ((\<forall>u\<in>set (pre @ post). \<not> isl (decode_value loads ks fp u)) \<longrightarrow>
            process_batch loads ks ps buffer fp (pre @ v # post) =
              (Inr (Min (set (timestamps (pre @ v # post)))),
               ps (admitted_spans loads ks fp (pre @ post))
                  (Min (set (timestamps (pre @ v # post)))) buffer))"
proof (intro conjI impI)
  from decode_value_matches [OF assms]
  show "map_sum (\<lambda>e. e) snd (process_values loads ks fp (pre @ v # post) None []) =
        map_sum (\<lambda>e. e) snd (process_values loads ks fp (pre @ post) None [])"
    by (rule process_values_skip)
next
  assume "\<forall>u\<in>set (pre @ post). \<not> isl (decode_value loads ks fp u)"
  with decode_value_matches [OF assms]
  have ok: "\<forall>u\<in>set (pre @ v # post). \<not> isl (decode_value loads ks fp u)"
    by auto
  have "span_of loads ks fp v = None"
    by (simp add: span_of_def decode_value_matches [OF assms])
  then have "admitted_spans loads ks fp (pre @ v # post) = admitted_spans loads ks fp (pre @ post)"
    by (simp add: admitted_spans_append admitted_spans_Cons)
  with process_batch_ok [OF _ ok, of ps buffer]
  show "process_batch loads ks ps buffer fp (pre @ v # post) =
              (Inr (Min (set (timestamps (pre @ v # post)))),
               ps (admitted_spans loads ks fp (pre @ post))
                  (Min (set (timestamps (pre @ v # post)))) buffer)"
    by simp
qed

theorem admission_match_drops_silently_witness:
  "admission_matches (loads_table ex_table) (drop_project 6) 0 (mk_value 5 ''child6'' [0])
   \<and> process_batch (loads_table ex_table) (drop_project 6) record_call [] 0
        ([mk_value 10 ''root5'' [0]] @ mk_value 5 ''child6'' [0] # [mk_value 7 ''child5'' [0]])
      = (Inr 5, [(admitted_spans (loads_table ex_table) (drop_project 6) 0
                    ([mk_value 10 ''root5'' [0]] @ [mk_value 7 ''child5'' [0]]), 5)])
   \<and> map span_id (admitted_spans (loads_table ex_table) (drop_project 6) 0
                    ([mk_value 10 ''root5'' [0]] @ [mk_value 7 ''child5'' [0]]))
      = [PStr ''a'', PStr ''b'']"
proof -
  have d: "admission_matches (loads_table ex_table) (drop_project 6) 0 (mk_value 5 ''child6'' [0])"
    by (simp add: admission_matches_def ex_defs)
  have ok: "\<forall>u\<in>set ([mk_value 10 ''root5'' [0]] @ [mk_value 7 ''child5'' [0]]).
              \<not> isl (decode_value (loads_table ex_table) (drop_project 6) 0 u)"
    by (simp add: ex_defs)
  have t: "Min (set (timestamps
             ([mk_value 10 ''root5'' [0]] @ mk_value 5 ''child6'' [0] # [mk_value 7 ''child5'' [0]])))
           = 5"
    by (simp add: ex_defs)
  have s: "map span_id (admitted_spans (loads_table ex_table) (drop_project 6) 0
                    ([mk_value 10 ''root5'' [0]] @ [mk_value 7 ''child5'' [0]]))
      = [PStr ''a'', PStr ''b'']"
    by (simp add: admitted_spans_def span_of_def ex_defs)
  from admission_match_drops_silently [OF d, of "[mk_value 10 ''root5'' [0]]"
         "[mk_value 7 ''child5'' [0]]" record_call "[]"] ok t
  have "process_batch (loads_table ex_table) (drop_project 6) record_call [] 0
        ([mk_value 10 ''root5'' [0]] @ mk_value 5 ''child6'' [0] # [mk_value 7 ''child5'' [0]])
      = (Inr 5, [(admitted_spans (loads_table ex_table) (drop_project 6) 0
                    ([mk_value 10 ''root5'' [0]] @ [mk_value 7 ''child5'' [0]]), 5)])"
    by (simp add: record_call_def)
  with d s show ?thesis by simp
qed

subsection \<open>When a message raises\<close>

lemma decode_value_fails_iff:
  "isl (decode_value loads ks fp v) \<longleftrightarrow>
     spec_fails_to_decode loads v \<and> \<not> admission_matches loads ks fp v"
  by (auto simp: decode_value_def spec_fails_to_decode_def admission_matches_def raw_bytes_def
        missing_required_key_def make_span_def dict_item_def Let_def
        split: option.splits pyval.splits sum.splits)

text \<open>
  C5, as the specification states it, fails: a record without its required keys that the
  admission predicate matches is dropped before the keys are read, and the batch goes
  through without an error.
\<close>

theorem missing_key_dropped_counterexample:
  "ex_batch_bare_dropped = [mk_value 10 ''bare6'' [0]]
   \<and> spec_fails_to_decode (loads_table ex_table) (mk_value 10 ''bare6'' [0])
   \<and> process_batch (loads_table ex_table) (drop_project 6) record_call [] 0
        ex_batch_bare_dropped = (Inr 10, [([], 10)])"
  by (simp add: ex_batch_bare_dropped_def spec_fails_to_decode_def missing_required_key_def
        process_batch_def record_call_def update_min_def ex_defs)

text \<open>
  C5, amended. If a message of the batch fails to decode (its bytes do not parse, the
  parsed value is not a record, or a required key is missing) and the admission predicate
  does not match it, \<^verbatim>\<open>process_batch\<close> raises an error other than the assertion's and
  the buffer is left as it was: \<^verbatim>\<open>process_spans\<close> is not called for any span of the batch.
\<close>

theorem decode_failure_aborts_batch:
  assumes "v \<in> set values" and "spec_fails_to_decode loads v"
    and "\<not> admission_matches loads ks fp v"
  shows "\<exists>e. process_batch loads ks ps buffer fp values = (Inl e, buffer) \<and> e \<noteq> AssertionError"
proof -
  from assms(2,3) have "isl (decode_value loads ks fp v)"
    by (simp add: decode_value_fails_iff)
  with assms(1) show ?thesis
    by (rule process_batch_error)
qed

theorem decode_failure_aborts_batch_witness:
  "timestamps ex_batch_malformed = [10, 11, 12]
   \<and> map raw_bytes ex_batch_malformed = [''root5'', ''bare5'', ''child5'']
   \<and> spec_fails_to_decode (loads_table ex_table) (mk_value 11 ''bare5'' [0])
   \<and> \<not> admission_matches (loads_table ex_table) (drop_project 6) 0 (mk_value 11 ''bare5'' [0])
   \<and> (\<exists>e. process_batch (loads_table ex_table) (drop_project 6) record_call [] 0
              ex_batch_malformed = (Inl e, []) \<and> e \<noteq> AssertionError)"
proof -
  have t: "timestamps ex_batch_malformed = [10, 11, 12]"
    by (simp add: ex_batch_malformed_def ex_defs)
  have r: "map raw_bytes ex_batch_malformed = [''root5'', ''bare5'', ''child5'']"
    by (simp add: ex_batch_malformed_def ex_defs)
  have i: "mk_value 11 ''bare5'' [0] \<in> set ex_batch_malformed"
    by (simp add: ex_batch_malformed_def)
  have f: "spec_fails_to_decode (loads_table ex_table) (mk_value 11 ''bare5'' [0])"
    by (simp add: spec_fails_to_decode_def missing_required_key_def ex_defs)
  have n: "\<not> admission_matches (loads_table ex_table) (drop_project 6) 0
               (mk_value 11 ''bare5'' [0])"
    by (simp add: admission_matches_def ex_defs)
  from decode_failure_aborts_batch [OF i f n, of record_call "[]"] t r f n
  show ?thesis by simp
qed

section \<open>The claim about \<^verbatim>\<open>prepare_message\<close>\<close>

text \<open>
  C6. \<^verbatim>\<open>prepare_message\<close> pairs the payload with the producer's timestamp, truncated to
  an integer, when the message has one, whatever the wall clock says; it uses the wall
  clock only when the message has none.
\<close>

theorem prepare_message_prefers_producer_timestamp:
  "(msg_timestamp message = Some t \<longrightarrow>
        prepare_message time_time message = (int_of_float t, msg_payload message))
   \<and> (msg_timestamp message = None \<longrightarrow>
        prepare_message time_time message = (int_of_float time_time, msg_payload message))"
  by (simp add: prepare_message_def)

theorem prepare_message_prefers_producer_timestamp_witness:
  "prepare_message 1800000000 ex_message_stamped = (1700000000, msg_payload ex_message_stamped)
   \<and> prepare_message (3600000001 / 2) ex_message_unstamped =
        (1800000000, msg_payload ex_message_unstamped)"
proof -
  have s: "msg_timestamp ex_message_stamped = Some (6800000003 / 4)"
    by (simp add: ex_message_stamped_def)
  have u: "msg_timestamp ex_message_unstamped = None"
    by (simp add: ex_message_unstamped_def)
  from prepare_message_prefers_producer_timestamp
         [where message = ex_message_stamped and t = "6800000003 / 4"
            and time_time = 1800000000] s
  have 1: "prepare_message 1800000000 ex_message_stamped =
             (1700000000, msg_payload ex_message_stamped)"
    by (simp add: int_of_float_def)
  from prepare_message_prefers_producer_timestamp
         [where message = ex_message_unstamped and time_time = "3600000001 / 2"] u
  have 2: "prepare_message (3600000001 / 2) ex_message_unstamped =
             (1800000000, msg_payload ex_message_unstamped)"
    by (simp add: int_of_float_def)
  from 1 2 show ?thesis by simp
qed

section \<open>The claim about the buffer engine\<close>

lemma ingest_span_keys:
  "e \<in> set (ingest_span shard now s segs) \<Longrightarrow>
   fst (fst e) = shard \<or> fst e \<in> fst ` set segs"
  by (auto simp: ingest_span_def image_iff split: option.splits if_splits)

lemma fold_ingest_span_keys:
  "e \<in> set (fold (ingest_span shard now) spans segs) \<Longrightarrow>
   fst (fst e) = shard \<or> fst e \<in> fst ` set segs"
proof (induction spans arbitrary: segs)
  case Nil
  then show ?case by auto
next
  case (Cons s spans)
  from Cons.IH [of "ingest_span shard now s segs"] Cons.prems
  have "fst (fst e) = shard \<or> fst e \<in> fst ` set (ingest_span shard now s segs)"
    by simp
  then show ?case
  proof
    assume "fst (fst e) = shard"
    then show ?thesis by simp
  next
    assume "fst e \<in> fst ` set (ingest_span shard now s segs)"
    then obtain e' where e': "e' \<in> set (ingest_span shard now s segs)" and k: "fst e' = fst e"
      by auto
    from ingest_span_keys [OF e'] k show ?thesis by simp
  qed
qed

lemma engine_inv_ingest: "engine_inv b \<Longrightarrow> engine_inv (ingest b shard spans now)"
  unfolding engine_inv_def ingest_def
  by (auto dest!: fold_ingest_span_keys)

lemma engine_inv_take: "engine_inv b \<Longrightarrow> engine_inv (snd (take_flushable b shard w))"
  unfolding engine_inv_def take_flushable_def
  by (auto split: option.splits)

lemma reachable_inv: "reachable b \<Longrightarrow> engine_inv b"
proof (induction rule: reachable.induct)
  case (start shards)
  show ?case by (simp add: engine_inv_def empty_engine_def)
next
  case (ingested b shard spans now)
  then show ?case by (simp add: engine_inv_ingest)
next
  case (flushed b shard watermark)
  then show ?case by (simp add: engine_inv_take)
qed

text \<open>
  C1. In every state the buffer engine can reach, for every live segment and every call of
  \<^verbatim>\<open>take_flushable\<close> on its shard, whatever watermark the caller supplies: the shard has
  a tracked watermark, and the segment is among those returned exactly when that
  watermark minus the segment's \<^verbatim>\<open>last_update\<close> is at least 120. Returned segments leave
  the live state and the others stay.
\<close>

theorem flushable_iff_idle_120:
  assumes "reachable b" and "((shard, tid), seg) \<in> set (segments b)"
  shows "\<exists>w. watermarks b shard = Some w
           \<and> (((shard, tid), seg) \<in> set (fst (take_flushable b shard watermark))
                \<longleftrightarrow> 120 \<le> w - last_update seg)
           \<and> (((shard, tid), seg) \<in> set (segments (snd (take_flushable b shard watermark)))
                \<longleftrightarrow> w - last_update seg < 120)"
proof -
  from reachable_inv [OF assms(1)] assms(2)
  have a: "shard \<in> set (assigned_shards b)" and "watermarks b shard \<noteq> None"
    by (auto simp: engine_inv_def)
  then obtain w where w: "watermarks b shard = Some w" by auto
  from a w assms(2)
  have "((shard, tid), seg) \<in> set (fst (take_flushable b shard watermark))
          \<longleftrightarrow> 120 \<le> w - last_update seg"
    and "((shard, tid), seg) \<in> set (segments (snd (take_flushable b shard watermark)))
          \<longleftrightarrow> w - last_update seg < 120"
    by (auto simp: take_flushable_def is_flushable_def flush_threshold_def)
  with w show ?thesis by blast
qed

theorem flushable_iff_idle_120_witness:
  "reachable ex_engine
   \<and> segments ex_engine =
       [((0, PStr ''t1''),
         \<lparr> seg_spans = [ex_span ''t1'' ''a'', ex_span ''t1'' ''b''], last_update = 30,
           created_at = 30 \<rparr>),
        ((0, PStr ''t2''),
         \<lparr> seg_spans = [ex_span ''t2'' ''c''], last_update = 150, created_at = 150 \<rparr>)]
   \<and> watermarks ex_engine 0 = Some 150
   \<and> ((0, PStr ''t1''),
         \<lparr> seg_spans = [ex_span ''t1'' ''a'', ex_span ''t1'' ''b''], last_update = 30,
           created_at = 30 \<rparr>) \<in> set (fst (take_flushable ex_engine 0 0))"
proof -
  have r: "reachable ex_engine"
    unfolding ex_engine_def by (intro reachable.intros)
  have s: "segments ex_engine =
       [((0, PStr ''t1''),
         \<lparr> seg_spans = [ex_span ''t1'' ''a'', ex_span ''t1'' ''b''], last_update = 30,
           created_at = 30 \<rparr>),
        ((0, PStr ''t2''),
         \<lparr> seg_spans = [ex_span ''t2'' ''c''], last_update = 150, created_at = 150 \<rparr>)]"
    by (simp add: ex_engine_def ingest_def empty_engine_def ingest_span_def add_span_def
          ex_span_def)
  have w: "watermarks ex_engine 0 = Some 150"
    by (simp add: ex_engine_def ingest_def empty_engine_def)
  have m: "((0, PStr ''t1''),
         \<lparr> seg_spans = [ex_span ''t1'' ''a'', ex_span ''t1'' ''b''], last_update = 30,
           created_at = 30 \<rparr>) \<in> set (segments ex_engine)"
    by (simp add: s)
  from flushable_iff_idle_120 [OF r m, of 0] w
  have "((0, PStr ''t1''),
         \<lparr> seg_spans = [ex_span ''t1'' ''a'', ex_span ''t1'' ''b''], last_update = 30,
           created_at = 30 \<rparr>) \<in> set (fst (take_flushable ex_engine 0 0))"
    by simp
  with r s w show ?thesis by simp
qed

end
